theory Spec2Isabelle
  imports Complex_Main
begin

section \<open>The window manager state engine\<close>

text \<open>
  The engine is the React provider \<open>WindowManagerProvider\<close>. It owns two pieces of state,
  \<open>windows\<close> (seeded with the empty array) and \<open>topZIndex\<close> (seeded with 100), and eight
  callbacks that replace them through functional updaters. Each callback is embedded as a
  function from the state before the call to the state after it: the updater passed to
  \<open>setTopZIndex\<close> yields the new counter, the updater passed to \<open>setWindows\<close> yields the
  new array. The calls into the logging and metrics SDK that the updaters make do not take
  part in the computation of either; they are listed apart, in \<open>sdk_calls\<close>, and \<open>attempt\<close>
  is the call as a whole: the new state, or the failure of the first SDK call that throws.

  JavaScript numbers: the counter starts at 100 and only ever has 1 added to it, so it is an
  integer and is modelled as \<open>int\<close>; coordinates and sizes are passed through untouched and
  are modelled as \<open>real\<close>.
\<close>

subsection \<open>Data model\<close>

text \<open>
  Modelled from the spec: the interface \<open>WindowState\<close> is imported from \<open>./types\<close>, which is
  not among the sources. Its fields are the ones listed in the data model of the
  specification. The argument of \<open>openWindow\<close> has type
  \<open>Omit<WindowState, 'zIndex' | 'isFocused'>\<close>, which is the record \<open>WindowInit\<close>;
  \<open>WindowState\<close> extends it by the two omitted fields. The fields \<open>id\<close>, \<open>x\<close> and \<open>y\<close> of the
  source are called \<open>wid\<close>, \<open>xpos\<close> and \<open>ypos\<close> here.
\<close>

record WindowInit =
  wid :: string
  title :: string
  xpos :: real
  ypos :: real
  width :: real
  height :: real
  isMinimized :: bool
  isMaximized :: bool

record WindowState = WindowInit +
  zIndex :: int
  isFocused :: bool

record WMState =
  windows :: "WindowState list"
  topZIndex :: int

definition initial_state :: WMState where
  "initial_state = \<lparr>windows = [], topZIndex = 100\<rparr>"

subsection \<open>Operations\<close>

definition openWindow :: "WMState \<Rightarrow> WindowInit \<Rightarrow> WMState" where
  "openWindow s window =
     (let newZ = topZIndex s + 1;
          prev = windows s
      in \<lparr>windows =
            (case find (\<lambda>w. wid w = wid window) prev of
               Some existing \<Rightarrow>
                 if isMinimized existing
                 then map (\<lambda>w. if wid w = wid window
                                then w\<lparr>isMinimized := False, isFocused := True, zIndex := newZ\<rparr>
                                else w\<lparr>isFocused := False\<rparr>) prev
                 else map (\<lambda>w. if wid w = wid window
                                then w\<lparr>isFocused := True, zIndex := newZ\<rparr>
                                else w\<lparr>isFocused := False\<rparr>) prev
             | None \<Rightarrow>
                 map (\<lambda>w. w\<lparr>isFocused := False\<rparr>) prev @
                 [\<lparr>wid = wid window, title = title window,
                   xpos = xpos window, ypos = ypos window,
                   width = width window, height = height window,
                   isMinimized = isMinimized window, isMaximized = isMaximized window,
                   zIndex = newZ, isFocused = True\<rparr>]),
          topZIndex = newZ\<rparr>)"

definition closeWindow :: "WMState \<Rightarrow> string \<Rightarrow> WMState" where
  "closeWindow s i = s\<lparr>windows := filter (\<lambda>w. wid w \<noteq> i) (windows s)\<rparr>"

definition minimizeWindow :: "WMState \<Rightarrow> string \<Rightarrow> WMState" where
  "minimizeWindow s i =
     s\<lparr>windows := map (\<lambda>w. if wid w = i then w\<lparr>isMinimized := True, isFocused := False\<rparr> else w)
                       (windows s)\<rparr>"

definition maximizeWindow :: "WMState \<Rightarrow> string \<Rightarrow> WMState" where
  "maximizeWindow s i =
     s\<lparr>windows := map (\<lambda>w. if wid w = i then w\<lparr>isMaximized := \<not> isMaximized w\<rparr> else w)
                       (windows s)\<rparr>"

definition restoreWindow :: "WMState \<Rightarrow> string \<Rightarrow> WMState" where
  "restoreWindow s i =
     (let newZ = topZIndex s + 1
      in \<lparr>windows = map (\<lambda>w. if wid w = i
                              then w\<lparr>isMinimized := False, isFocused := True, zIndex := newZ\<rparr>
                              else w\<lparr>isFocused := False\<rparr>) (windows s),
          topZIndex = newZ\<rparr>)"

definition focusWindow :: "WMState \<Rightarrow> string \<Rightarrow> WMState" where
  "focusWindow s i =
     (let newZ = topZIndex s + 1
      in \<lparr>windows = map (\<lambda>w. if wid w = i
                              then w\<lparr>isFocused := True, zIndex := newZ\<rparr>
                              else w\<lparr>isFocused := False\<rparr>) (windows s),
          topZIndex = newZ\<rparr>)"

definition updateWindowPosition :: "WMState \<Rightarrow> string \<Rightarrow> real \<Rightarrow> real \<Rightarrow> WMState" where
  "updateWindowPosition s i x y =
     s\<lparr>windows := map (\<lambda>w. if wid w = i then w\<lparr>xpos := x, ypos := y\<rparr> else w) (windows s)\<rparr>"

definition updateWindowSize :: "WMState \<Rightarrow> string \<Rightarrow> real \<Rightarrow> real \<Rightarrow> WMState" where
  "updateWindowSize s i w h =
     s\<lparr>windows := map (\<lambda>v. if wid v = i then v\<lparr>width := w, height := h\<rparr> else v) (windows s)\<rparr>"

subsection \<open>Sequences of operations\<close>

text \<open>
  A call of one of the eight callbacks, and the state reached by a finite sequence of calls.
\<close>

datatype operation =
    Open WindowInit
  | Close string
  | Minimize string
  | Maximize string
  | Restore string
  | Focus string
  | UpdatePosition string real real
  | UpdateSize string real real

fun step :: "WMState \<Rightarrow> operation \<Rightarrow> WMState" where
  "step s (Open window) = openWindow s window"
| "step s (Close i) = closeWindow s i"
| "step s (Minimize i) = minimizeWindow s i"
| "step s (Maximize i) = maximizeWindow s i"
| "step s (Restore i) = restoreWindow s i"
| "step s (Focus i) = focusWindow s i"
| "step s (UpdatePosition i x y) = updateWindowPosition s i x y"
| "step s (UpdateSize i w h) = updateWindowSize s i w h"

fun run :: "WMState \<Rightarrow> operation list \<Rightarrow> WMState" where
  "run s [] = s"
| "run s (a # as) = run (step s a) as"

subsection \<open>Calls into the logging and metrics SDK\<close>

text \<open>
  The SDK calls an updater makes, in the order of the source, each with its message or
  metric name. \<open>closeWindow\<close>, \<open>minimizeWindow\<close>, \<open>maximizeWindow\<close>, \<open>updateWindowPosition\<close> and
  \<open>updateWindowSize\<close> make theirs under \<open>if (window)\<close>, that is only when \<open>find\<close> has found the
  id; \<open>openWindow\<close> makes calls on each of its three branches; \<open>restoreWindow\<close> and
  \<open>focusWindow\<close> make none.
\<close>

datatype sdk_call =
    LoggerInfo string
  | LoggerDebug string
  | MetricsIncrement string
  | MetricsGauge string

fun sdk_calls :: "WMState \<Rightarrow> operation \<Rightarrow> sdk_call list" where
  "sdk_calls s (Open window) =
     (case find (\<lambda>w. wid w = wid window) (windows s) of
        Some existing \<Rightarrow>
          if isMinimized existing
          then [LoggerInfo ''Window restored from minimized state'',
                MetricsIncrement ''window.restore'']
          else [LoggerDebug ''Window focused (already open)'']
      | None \<Rightarrow>
          [LoggerInfo ''New window opened'', MetricsIncrement ''window.open'',
           MetricsGauge ''window.active_count''])"
| "sdk_calls s (Close i) =
     (case find (\<lambda>w. wid w = i) (windows s) of
        Some window \<Rightarrow>
          [LoggerInfo ''Window closed'', MetricsIncrement ''window.close'',
           MetricsGauge ''window.active_count'']
      | None \<Rightarrow> [])"
| "sdk_calls s (Minimize i) =
     (case find (\<lambda>w. wid w = i) (windows s) of
        Some window \<Rightarrow> [LoggerInfo ''Window minimized'', MetricsIncrement ''window.minimize'']
      | None \<Rightarrow> [])"
| "sdk_calls s (Maximize i) =
     (case find (\<lambda>w. wid w = i) (windows s) of
        Some window \<Rightarrow>
          (let action = (if isMaximized window then ''restore'' else ''maximize'')
           in [LoggerInfo (''Window '' @ action @ ''d''), MetricsIncrement (''window.'' @ action)])
      | None \<Rightarrow> [])"
| "sdk_calls s (Restore i) = []"
| "sdk_calls s (Focus i) = []"
| "sdk_calls s (UpdatePosition i x y) =
     (case find (\<lambda>w. wid w = i) (windows s) of
        Some window \<Rightarrow>
          [LoggerDebug ''Window position updated'', MetricsIncrement ''window.position_update'']
      | None \<Rightarrow> [])"
| "sdk_calls s (UpdateSize i w h) =
     (case find (\<lambda>v. wid v = i) (windows s) of
        Some window \<Rightarrow>
          [LoggerDebug ''Window size updated'', MetricsIncrement ''window.resize'',
           MetricsGauge ''window.size'']
      | None \<Rightarrow> [])"

text \<open>
  A call of a callback as a whole. The SDK is not part of the sources, so which of its
  calls throw is a parameter. The SDK calls of an updater come before its \<open>return\<close>: when
  one of them throws, the updater throws and yields no state; otherwise the call yields
  the state given by \<open>step\<close>.
\<close>

datatype engine_error = SdkThrew sdk_call

definition attempt :: "(sdk_call \<Rightarrow> bool) \<Rightarrow> WMState \<Rightarrow> operation \<Rightarrow> engine_error + WMState" where
  "attempt throws s a =
     (case find throws (sdk_calls s a) of
        Some c \<Rightarrow> Inl (SdkThrew c)
      | None \<Rightarrow> Inr (step s a))"

text \<open>The number of windows that hold the focus.\<close>

definition focused_count :: "WindowState list \<Rightarrow> nat" where
  "focused_count ws = length (filter isFocused ws)"

text \<open>The identifiers of the collection, in the order of the collection.\<close>

definition ids :: "WindowState list \<Rightarrow> string list" where
  "ids ws = map wid ws"

subsection \<open>State predicates\<close>

text \<open>No window is minimized and focused at once.\<close>

definition hidden_unfocused :: "WindowState list \<Rightarrow> bool" where
  "hidden_unfocused ws = list_all (\<lambda>w. \<not> (isMinimized w \<and> isFocused w)) ws"

text \<open>No window lies above the counter.\<close>

definition z_bounded :: "WMState \<Rightarrow> bool" where
  "z_bounded s = list_all (\<lambda>w. zIndex w \<le> topZIndex s) (windows s)"

subsection \<open>Sample arguments\<close>

text \<open>
  The argument of scenario A of the specification, and two more of the same shape. In the
  first two the flags \<open>isMinimized\<close> and \<open>isMaximized\<close>, which the scenario does not write,
  are false; the third is given with \<open>isMinimized = true\<close>.
\<close>

definition notes_window :: WindowInit where
  "notes_window = \<lparr>wid = ''a'', title = ''Notes'', xpos = 0, ypos = 0,
     width = 400, height = 300, isMinimized = False, isMaximized = False\<rparr>"

definition editor_window :: WindowInit where
  "editor_window = \<lparr>wid = ''b'', title = ''Editor'', xpos = 40, ypos = 60,
     width = 640, height = 480, isMinimized = False, isMaximized = False\<rparr>"

definition tray_window :: WindowInit where
  "tray_window = \<lparr>wid = ''c'', title = ''Tray'', xpos = 5, ypos = 5,
     width = 200, height = 100, isMinimized = True, isMaximized = False\<rparr>"

section \<open>Auxiliary facts\<close>

subsection \<open>Looking a window up by its id\<close>

lemma find_None_ids: "find (\<lambda>w. wid w = i) ws = None \<longleftrightarrow> i \<notin> set (ids ws)"
  by (auto simp: find_None_iff ids_def)

subsection \<open>Counting the focused windows\<close>

lemma focused_count_Nil: "focused_count [] = 0"
  by (simp add: focused_count_def)

lemma focused_count_Cons:
  "focused_count (w # ws) = (if isFocused w then 1 else 0) + focused_count ws"
  by (simp add: focused_count_def)

lemma focused_count_append: "focused_count (xs @ ys) = focused_count xs + focused_count ys"
  by (simp add: focused_count_def)

lemmas focused_count_simps = focused_count_Nil focused_count_Cons focused_count_append

lemma focused_count_defocus_all: "focused_count (map (\<lambda>w. w\<lparr>isFocused := False\<rparr>) ws) = 0"
  by (induction ws) (simp_all add: focused_count_simps)

lemma focused_count_retarget_absent:
  "i \<notin> set (ids ws) \<Longrightarrow>
   focused_count (map (\<lambda>w. if wid w = i then f w else w\<lparr>isFocused := False\<rparr>) ws) = 0"
  by (induction ws) (auto simp: focused_count_simps ids_def)

lemma focused_count_retarget:
  "distinct (ids ws) \<Longrightarrow>
   focused_count (map (\<lambda>w. if wid w = i then f w else w\<lparr>isFocused := False\<rparr>) ws) \<le> 1"
proof (induction ws)
  case Nil
  show ?case by (simp add: focused_count_simps)
next
  case (Cons v vs)
  show ?case
  proof (cases "wid v = i")
    case True
    with Cons.prems have "i \<notin> set (ids vs)" by (simp add: ids_def)
    from focused_count_retarget_absent [OF this, of f] True show ?thesis
      by (simp add: focused_count_simps)
  next
    case False
    with Cons show ?thesis by (simp add: focused_count_simps ids_def)
  qed
qed

lemma focused_count_filter: "focused_count (filter P ws) \<le> focused_count ws"
  by (induction ws) (simp_all add: focused_count_simps)

lemma focused_count_unfocus_some:
  "focused_count (map (\<lambda>w. if c w then (f w)\<lparr>isFocused := False\<rparr> else w) ws) \<le> focused_count ws"
  by (induction ws) (simp_all add: focused_count_simps)

lemma focused_count_keep:
  "(\<And>w. isFocused (f w) = isFocused w) \<Longrightarrow> focused_count (map f ws) = focused_count ws"
  by (induction ws) (simp_all add: focused_count_simps)

subsection \<open>The ids of the collection after each operation\<close>

lemma ids_openWindow:
  "ids (windows (openWindow s window)) =
     (if wid window \<in> set (ids (windows s)) then ids (windows s)
      else ids (windows s) @ [wid window])"
proof (cases "find (\<lambda>w. wid w = wid window) (windows s)")
  case None
  then have "wid window \<notin> set (ids (windows s))" by (simp add: find_None_ids)
  with None show ?thesis by (simp add: openWindow_def Let_def ids_def)
next
  case (Some e)
  then have "wid window \<in> set (ids (windows s))"
    using find_None_ids [of "wid window" "windows s"] by simp
  with Some show ?thesis by (simp add: openWindow_def Let_def ids_def comp_def)
qed

lemma ids_closeWindow: "ids (windows (closeWindow s i)) = filter (\<lambda>j. j \<noteq> i) (ids (windows s))"
  by (simp add: closeWindow_def ids_def filter_map comp_def)

lemma ids_minimizeWindow: "ids (windows (minimizeWindow s i)) = ids (windows s)"
  by (simp add: minimizeWindow_def ids_def)

lemma ids_maximizeWindow: "ids (windows (maximizeWindow s i)) = ids (windows s)"
  by (simp add: maximizeWindow_def ids_def)

lemma ids_restoreWindow: "ids (windows (restoreWindow s i)) = ids (windows s)"
  by (simp add: restoreWindow_def ids_def Let_def)

lemma ids_focusWindow: "ids (windows (focusWindow s i)) = ids (windows s)"
  by (simp add: focusWindow_def ids_def Let_def)

lemma ids_updateWindowPosition: "ids (windows (updateWindowPosition s i x y)) = ids (windows s)"
  by (simp add: updateWindowPosition_def ids_def)

lemma ids_updateWindowSize: "ids (windows (updateWindowSize s i w h)) = ids (windows s)"
  by (simp add: updateWindowSize_def ids_def)

lemmas ids_ops = ids_openWindow ids_closeWindow ids_minimizeWindow ids_maximizeWindow
  ids_restoreWindow ids_focusWindow ids_updateWindowPosition ids_updateWindowSize

lemma distinct_ids_step: "distinct (ids (windows s)) \<Longrightarrow> distinct (ids (windows (step s a)))"
  by (cases a) (simp_all add: ids_ops)

subsection \<open>At most one focused window\<close>

lemma focused_count_openWindow:
  "distinct (ids (windows s)) \<Longrightarrow> focused_count (windows (openWindow s window)) \<le> 1"
proof (cases "find (\<lambda>w. wid w = wid window) (windows s)")
  case None
  then show ?thesis
    by (simp add: openWindow_def Let_def focused_count_simps focused_count_defocus_all)
next
  case (Some e)
  assume d: "distinct (ids (windows s))"
  show ?thesis
    using Some focused_count_retarget [OF d]
    by (simp add: openWindow_def Let_def)
qed

lemma focused_count_step:
  assumes "distinct (ids (windows s))" and "focused_count (windows s) \<le> 1"
  shows "focused_count (windows (step s a)) \<le> 1"
proof (cases a)
  case (Open window)
  with focused_count_openWindow [OF assms(1), of window] show ?thesis by simp
next
  case (Close i)
  with assms focused_count_filter [of "\<lambda>w. wid w \<noteq> i" "windows s"] show ?thesis
    by (simp add: closeWindow_def)
next
  case (Minimize i)
  have "focused_count (map (\<lambda>w. if wid w = i then (w\<lparr>isMinimized := True\<rparr>)\<lparr>isFocused := False\<rparr> else w) (windows s))
          \<le> focused_count (windows s)"
    by (rule focused_count_unfocus_some)
  with Minimize assms show ?thesis by (simp add: minimizeWindow_def)
next
  case (Maximize i)
  with assms show ?thesis by (simp add: maximizeWindow_def focused_count_keep)
next
  case (Restore i)
  with focused_count_retarget [OF assms(1)] show ?thesis by (simp add: restoreWindow_def Let_def)
next
  case (Focus i)
  with focused_count_retarget [OF assms(1)] show ?thesis by (simp add: focusWindow_def Let_def)
next
  case (UpdatePosition i x y)
  with assms show ?thesis by (simp add: updateWindowPosition_def focused_count_keep)
next
  case (UpdateSize i w h)
  with assms show ?thesis by (simp add: updateWindowSize_def focused_count_keep)
qed

lemma focused_count_run:
  "distinct (ids (windows s)) \<Longrightarrow> focused_count (windows s) \<le> 1 \<Longrightarrow>
   focused_count (windows (run s as)) \<le> 1"
proof (induction as arbitrary: s)
  case Nil
  then show ?case by simp
next
  case (Cons a as)
  have "focused_count (windows (run (step s a) as)) \<le> 1"
    using Cons.prems by (intro Cons.IH distinct_ids_step focused_count_step)
  then show ?case by simp
qed

subsection \<open>Unfolding the operations; the window found under a unique id\<close>

lemmas op_defs = openWindow_def closeWindow_def minimizeWindow_def maximizeWindow_def
  restoreWindow_def focusWindow_def updateWindowPosition_def updateWindowSize_def Let_def

lemma find_Some_distinct:
  "distinct (ids ws) \<Longrightarrow> find (\<lambda>w. wid w = i) ws = Some e \<Longrightarrow> w \<in> set ws \<Longrightarrow> wid w = i \<Longrightarrow> w = e"
  by (induction ws) (auto simp: ids_def split: if_splits)

subsection \<open>Ids that match no window\<close>

lemma map_absent_unchanged:
  "i \<notin> set (ids ws) \<Longrightarrow> map (\<lambda>w. if wid w = i then f w else g w) ws = map g ws"
  by (induction ws) (auto simp: ids_def)

lemma map_absent_same:
  "i \<notin> set (ids ws) \<Longrightarrow> map (\<lambda>w. if wid w = i then f w else w) ws = ws"
  using map_absent_unchanged [of i ws f "\<lambda>w. w"] by simp

lemma filter_absent_same: "i \<notin> set (ids ws) \<Longrightarrow> filter (\<lambda>w. wid w \<noteq> i) ws = ws"
  by (induction ws) (auto simp: ids_def)

lemma sdk_calls_absent:
  assumes "i \<notin> set (ids (windows s))"
  shows "sdk_calls s (Close i) = []" and "sdk_calls s (Minimize i) = []"
    and "sdk_calls s (Maximize i) = []" and "sdk_calls s (Restore i) = []"
    and "sdk_calls s (Focus i) = []" and "sdk_calls s (UpdatePosition i x y) = []"
    and "sdk_calls s (UpdateSize i w h) = []"
  using assms find_None_ids [of i "windows s"] by simp_all

lemma attempt_silent: "sdk_calls s a = [] \<Longrightarrow> attempt throws s a = Inr (step s a)"
  by (simp add: attempt_def)

subsection \<open>The counter and the stacking values\<close>

lemma topZIndex_step_mono: "topZIndex s \<le> topZIndex (step s a)"
  by (cases a) (simp_all add: op_defs)

lemma topZIndex_run_mono: "topZIndex s \<le> topZIndex (run s as)"
proof (induction as arbitrary: s)
  case Nil
  show ?case by simp
next
  case (Cons a as)
  have "topZIndex s \<le> topZIndex (step s a)" by (rule topZIndex_step_mono)
  also have "\<dots> \<le> topZIndex (run (step s a) as)" by (rule Cons.IH)
  finally show ?case by simp
qed

lemma z_bounded_step: "z_bounded s \<Longrightarrow> z_bounded (step s a)"
  by (cases a) (auto simp: op_defs z_bounded_def list_all_iff split: option.splits)

lemma z_bounded_run: "z_bounded s \<Longrightarrow> z_bounded (run s as)"
  by (induction as arbitrary: s) (simp_all add: z_bounded_step)

lemma zIndex_retarget:
  "(\<And>w. wid (f w) = wid w \<and> zIndex (f w) = z) \<Longrightarrow>
   list_all (\<lambda>v. wid v = i \<longrightarrow> zIndex v = z)
     (map (\<lambda>w. if wid w = i then f w else w\<lparr>isFocused := False\<rparr>) ws)"
  by (induction ws) simp_all

lemma zIndex_defocus_absent:
  "i \<notin> set (ids ws) \<Longrightarrow>
   list_all (\<lambda>v. wid v = i \<longrightarrow> zIndex v = z) (map (\<lambda>w. w\<lparr>isFocused := False\<rparr>) ws)"
  by (induction ws) (auto simp: ids_def)

lemma zIndex_openWindow:
  "list_all (\<lambda>v. wid v = wid window \<longrightarrow> zIndex v = topZIndex s + 1) (windows (openWindow s window))"
proof (cases "find (\<lambda>w. wid w = wid window) (windows s)")
  case None
  then have "wid window \<notin> set (ids (windows s))" by (simp add: find_None_ids)
  from zIndex_defocus_absent [OF this] None show ?thesis
    by (simp add: openWindow_def Let_def)
next
  case (Some e)
  have "list_all (\<lambda>v. wid v = wid window \<longrightarrow> zIndex v = z)
     (map (\<lambda>w. if wid w = wid window then u w\<lparr>isFocused := True, zIndex := z\<rparr>
                else w\<lparr>isFocused := False\<rparr>) (windows s))"
    if "\<And>w. wid (u w) = wid w" for u :: "WindowState \<Rightarrow> WindowState" and z
    using that by (intro zIndex_retarget) simp
  from this [of "\<lambda>w. w"] this [of "\<lambda>w. w\<lparr>isMinimized := False\<rparr>"] Some show ?thesis
    by (simp add: openWindow_def Let_def)
qed

lemma zIndex_restoreWindow:
  "list_all (\<lambda>v. wid v = i \<longrightarrow> zIndex v = topZIndex s + 1) (windows (restoreWindow s i))"
  unfolding restoreWindow_def Let_def by (simp del: map_eq_conv list.pred_map) (intro zIndex_retarget, simp)

lemma zIndex_focusWindow:
  "list_all (\<lambda>v. wid v = i \<longrightarrow> zIndex v = topZIndex s + 1) (windows (focusWindow s i))"
  unfolding focusWindow_def Let_def by (simp del: map_eq_conv list.pred_map) (intro zIndex_retarget, simp)

subsection \<open>The two cases of openWindow\<close>

lemma find_present: "i \<in> set (ids ws) \<Longrightarrow> \<exists>e. find (\<lambda>w. wid w = i) ws = Some e"
  using find_None_ids [of i ws] by (cases "find (\<lambda>w. wid w = i) ws") auto

lemma openWindow_absent:
  "wid window \<notin> set (ids (windows s)) \<Longrightarrow>
   windows (openWindow s window) =
     map (\<lambda>w. w\<lparr>isFocused := False\<rparr>) (windows s) @
     [\<lparr>wid = wid window, title = title window, xpos = xpos window, ypos = ypos window,
       width = width window, height = height window,
       isMinimized = isMinimized window, isMaximized = isMaximized window,
       zIndex = topZIndex s + 1, isFocused = True\<rparr>]"
  using find_None_ids [of "wid window" "windows s"] by (simp add: openWindow_def Let_def)

lemma openWindow_present:
  "find (\<lambda>w. wid w = wid window) (windows s) = Some e \<Longrightarrow>
   windows (openWindow s window) =
     map (\<lambda>w. if wid w = wid window
               then w\<lparr>isMinimized := isMinimized w \<and> \<not> isMinimized e, isFocused := True,
                      zIndex := topZIndex s + 1\<rparr>
               else w\<lparr>isFocused := False\<rparr>) (windows s)"
  by (cases "isMinimized e") (simp_all add: openWindow_def Let_def)

lemma topZIndex_openWindow: "topZIndex (openWindow s window) = topZIndex s + 1"
  by (simp add: openWindow_def Let_def)

subsection \<open>Pointwise comparison of a collection with its image\<close>

lemma list_all2_map_self: "list_all2 P ws (map f ws) = list_all (\<lambda>w. P w (f w)) ws"
  by (induction ws) simp_all

lemma length_filter_distinct:
  "distinct (ids ws) \<Longrightarrow> i \<in> set (ids ws) \<Longrightarrow> length (filter (\<lambda>w. wid w \<noteq> i) ws) + 1 = length ws"
proof (induction ws)
  case Nil
  then show ?case by (simp add: ids_def)
next
  case (Cons v vs)
  show ?case
  proof (cases "wid v = i")
    case True
    with Cons.prems have "i \<notin> set (ids vs)" by (simp add: ids_def)
    then have "filter (\<lambda>w. wid w \<noteq> i) vs = vs" by (rule filter_absent_same)
    with True show ?thesis by simp
  next
    case False
    with Cons show ?thesis by (simp add: ids_def)
  qed
qed

lemma map_fixed: "(\<And>w. w \<in> set ws \<Longrightarrow> f w = w) \<Longrightarrow> map f ws = ws"
  by (induction ws) simp_all

lemma maximizeWindow_twice: "maximizeWindow (maximizeWindow s i) i = s"
proof -
  have "map ((\<lambda>w. if wid w = i then w\<lparr>isMaximized := \<not> isMaximized w\<rparr> else w) \<circ>
             (\<lambda>w. if wid w = i then w\<lparr>isMaximized := \<not> isMaximized w\<rparr> else w)) (windows s)
        = windows s"
    by (rule map_fixed) simp
  then show ?thesis by (simp add: maximizeWindow_def)
qed

lemma minimizeWindow_settled:
  assumes "list_all (\<lambda>w. wid w = i \<longrightarrow> isMinimized w \<and> \<not> isFocused w) (windows s)"
  shows "minimizeWindow s i = s"
proof -
  have "(if wid w = i then w\<lparr>isMinimized := True, isFocused := False\<rparr> else w) = w"
    if "w \<in> set (windows s)" for w
  proof (cases "wid w = i")
    case True
    with assms that have "isMinimized w" "\<not> isFocused w" by (auto simp: list_all_iff)
    then have "w\<lparr>isMinimized := True, isFocused := False\<rparr> = w"
      by (intro WindowState.equality) simp_all
    with True show ?thesis by simp
  next
    case False
    then show ?thesis by simp
  qed
  then have "map (\<lambda>w. if wid w = i then w\<lparr>isMinimized := True, isFocused := False\<rparr> else w) (windows s)
        = windows s"
    by (rule map_fixed)
  then show ?thesis by (simp add: minimizeWindow_def)
qed

subsection \<open>Filtering by membership\<close>

lemma filter_conj_member: "set xs \<subseteq> A \<Longrightarrow> filter (\<lambda>x. P x \<and> x \<in> A) xs = filter P xs"
  by (induction xs) auto

lemma filter_member_conj: "set xs \<subseteq> A \<Longrightarrow> filter (\<lambda>x. x \<in> A \<and> P x) xs = filter P xs"
  by (induction xs) auto

lemma filter_survivors: "filter (\<lambda>j. j \<in> set (filter P xs)) xs = filter P xs"
  by (simp add: filter_member_conj)

lemma filter_members: "filter (\<lambda>j. j \<in> set xs) (filter P xs) = filter P xs"
  by (simp add: filter_conj_member)

section \<open>Invariants of the reachable states\<close>

text \<open>
  C1 (focus exclusivity). Starting from the initial state (no windows, counter 100), after
  every finite sequence of calls of the eight operations at most one window of the
  collection has \<open>isFocused = true\<close>.
\<close>

theorem focus_exclusivity: "focused_count (windows (run initial_state as)) \<le> 1"
  by (rule focused_count_run) (simp_all add: initial_state_def ids_def focused_count_simps)

text \<open>
  C2 (minimized windows are not focused). The claim: after every finite sequence of calls
  from the initial state every minimized window has \<open>isFocused = false\<close>, also after
  \<open>focus(id)\<close> on a window that is minimized. \<open>minimizeWindow\<close> clears \<open>isFocused\<close> when it
  sets \<open>isMinimized\<close>, and \<open>restoreWindow\<close> and the minimized branch of \<open>openWindow\<close> clear
  \<open>isMinimized\<close> when they set \<open>isFocused\<close>; \<open>focusWindow\<close> sets \<open>isFocused\<close> and keeps
  \<open>isMinimized\<close>. The code at \<open>open a; minimize a; focus a\<close>: the window \<open>a\<close> ends
  minimized and focused, with \<open>zIndex = 102\<close>. After \<open>open a; minimize a\<close>, and when the
  third call is \<open>restore a\<close> or \<open>open a\<close> instead, no window is minimized and focused.
\<close>

theorem focus_on_minimized_window:
  "run initial_state [Open notes_window, Minimize ''a'', Focus ''a''] =
     \<lparr>windows =
        [\<lparr>wid = ''a'', title = ''Notes'', xpos = 0, ypos = 0,
          width = 400, height = 300, isMinimized = True, isMaximized = False,
          zIndex = 102, isFocused = True\<rparr>],
      topZIndex = 102\<rparr> \<and>
   \<not> hidden_unfocused (windows (run initial_state
        [Open notes_window, Minimize ''a'', Focus ''a''])) \<and>
   hidden_unfocused (windows (run initial_state [Open notes_window, Minimize ''a''])) \<and>
   hidden_unfocused (windows (run initial_state
        [Open notes_window, Minimize ''a'', Restore ''a''])) \<and>
   hidden_unfocused (windows (run initial_state
        [Open notes_window, Minimize ''a'', Open notes_window]))"
  by (simp add: initial_state_def notes_window_def op_defs hidden_unfocused_def)

section \<open>Calls with an id that is not in the collection\<close>

text \<open>
  C3 (calls on an absent id), as the code has it. For every state and every id that no
  window of the collection has: \<open>closeWindow\<close>, \<open>minimizeWindow\<close>, \<open>maximizeWindow\<close>,
  \<open>updateWindowPosition\<close> and \<open>updateWindowSize\<close> return the state unchanged, collection and
  counter; \<open>restoreWindow\<close> and \<open>focusWindow\<close> do not: their updater of the counter runs
  whether or not the id is found, and the other branch of their \<open>map\<close> applies to every
  window, so the counter grows by 1 and every window ends with \<open>isFocused = false\<close>, and
  nothing else changes. None of the seven calls throws there: on an absent id no SDK call
  is made, so each call yields its state whatever the SDK does.
\<close>

theorem absent_id_effect:
  assumes "i \<notin> set (ids (windows s))"
  shows "closeWindow s i = s \<and> minimizeWindow s i = s \<and> maximizeWindow s i = s \<and>
         updateWindowPosition s i x y = s \<and> updateWindowSize s i w h = s \<and>
         restoreWindow s i =
           \<lparr>windows = map (\<lambda>v. v\<lparr>isFocused := False\<rparr>) (windows s),
            topZIndex = topZIndex s + 1\<rparr> \<and>
         focusWindow s i =
           \<lparr>windows = map (\<lambda>v. v\<lparr>isFocused := False\<rparr>) (windows s),
            topZIndex = topZIndex s + 1\<rparr> \<and>
         attempt throws s (Close i) = Inr (closeWindow s i) \<and>
         attempt throws s (Minimize i) = Inr (minimizeWindow s i) \<and>
         attempt throws s (Maximize i) = Inr (maximizeWindow s i) \<and>
         attempt throws s (Restore i) = Inr (restoreWindow s i) \<and>
         attempt throws s (Focus i) = Inr (focusWindow s i) \<and>
         attempt throws s (UpdatePosition i x y) = Inr (updateWindowPosition s i x y) \<and>
         attempt throws s (UpdateSize i w h) = Inr (updateWindowSize s i w h)"
proof -
  have state: "closeWindow s i = s \<and> minimizeWindow s i = s \<and> maximizeWindow s i = s \<and>
         updateWindowPosition s i x y = s \<and> updateWindowSize s i w h = s \<and>
         restoreWindow s i =
           \<lparr>windows = map (\<lambda>v. v\<lparr>isFocused := False\<rparr>) (windows s),
            topZIndex = topZIndex s + 1\<rparr> \<and>
         focusWindow s i =
           \<lparr>windows = map (\<lambda>v. v\<lparr>isFocused := False\<rparr>) (windows s),
            topZIndex = topZIndex s + 1\<rparr>"
    using assms
    by (simp add: op_defs map_absent_same map_absent_unchanged filter_absent_same)
  have quiet: "attempt throws s (Close i) = Inr (closeWindow s i)"
    "attempt throws s (Minimize i) = Inr (minimizeWindow s i)"
    "attempt throws s (Maximize i) = Inr (maximizeWindow s i)"
    "attempt throws s (Restore i) = Inr (restoreWindow s i)"
    "attempt throws s (Focus i) = Inr (focusWindow s i)"
    "attempt throws s (UpdatePosition i x y) = Inr (updateWindowPosition s i x y)"
    "attempt throws s (UpdateSize i w h) = Inr (updateWindowSize s i w h)"
    using sdk_calls_absent [OF assms] by (simp_all add: attempt_silent)
  from state quiet show ?thesis by (intro conjI) simp_all
qed

text \<open>
  At \<open>open a; open b\<close> and the unused id \<open>zz\<close>, with an SDK of which every call throws. For
  contrast, with that SDK \<open>close a\<close>, whose id is present, fails at its first SDK call.
\<close>

theorem absent_id_effect_witness:
  "''zz'' \<notin> set (ids (windows (run initial_state [Open notes_window, Open editor_window]))) \<and>
   attempt (\<lambda>c. True) (run initial_state [Open notes_window, Open editor_window]) (Close ''zz'') =
     Inr (run initial_state [Open notes_window, Open editor_window]) \<and>
   attempt (\<lambda>c. True) (run initial_state [Open notes_window, Open editor_window]) (Minimize ''zz'') =
     Inr (run initial_state [Open notes_window, Open editor_window]) \<and>
   attempt (\<lambda>c. True) (run initial_state [Open notes_window, Open editor_window]) (Maximize ''zz'') =
     Inr (run initial_state [Open notes_window, Open editor_window]) \<and>
   attempt (\<lambda>c. True) (run initial_state [Open notes_window, Open editor_window])
       (UpdatePosition ''zz'' 7 9) =
     Inr (run initial_state [Open notes_window, Open editor_window]) \<and>
   attempt (\<lambda>c. True) (run initial_state [Open notes_window, Open editor_window])
       (UpdateSize ''zz'' 30 20) =
     Inr (run initial_state [Open notes_window, Open editor_window]) \<and>
   attempt (\<lambda>c. True) (run initial_state [Open notes_window, Open editor_window]) (Restore ''zz'') =
     Inr \<lparr>windows =
           [\<lparr>wid = ''a'', title = ''Notes'', xpos = 0, ypos = 0,
             width = 400, height = 300, isMinimized = False, isMaximized = False,
             zIndex = 101, isFocused = False\<rparr>,
            \<lparr>wid = ''b'', title = ''Editor'', xpos = 40, ypos = 60,
             width = 640, height = 480, isMinimized = False, isMaximized = False,
             zIndex = 102, isFocused = False\<rparr>],
          topZIndex = 103\<rparr> \<and>
   attempt (\<lambda>c. True) (run initial_state [Open notes_window, Open editor_window]) (Focus ''zz'') =
     Inr \<lparr>windows =
           [\<lparr>wid = ''a'', title = ''Notes'', xpos = 0, ypos = 0,
             width = 400, height = 300, isMinimized = False, isMaximized = False,
             zIndex = 101, isFocused = False\<rparr>,
            \<lparr>wid = ''b'', title = ''Editor'', xpos = 40, ypos = 60,
             width = 640, height = 480, isMinimized = False, isMaximized = False,
             zIndex = 102, isFocused = False\<rparr>],
          topZIndex = 103\<rparr> \<and>
   attempt (\<lambda>c. True) (run initial_state [Open notes_window, Open editor_window]) (Close ''a'') =
     Inl (SdkThrew (LoggerInfo ''Window closed''))"
  using absent_id_effect [of "''zz''" "run initial_state [Open notes_window, Open editor_window]"
      7 9 30 20 "\<lambda>c. True"]
  by (simp add: initial_state_def notes_window_def editor_window_def openWindow_def Let_def ids_def
      attempt_def)

text \<open>
  The claim as worded fails for \<open>focus\<close> and \<open>restore\<close>: after \<open>open a\<close> (counter 101, \<open>a\<close>
  focused), a call with the unused id \<open>zz\<close> moves the counter to 102 and takes the focus
  from \<open>a\<close>.
\<close>

theorem focus_absent_id_counterexample:
  "''zz'' \<notin> set (ids (windows (run initial_state [Open notes_window]))) \<and>
   focusWindow (run initial_state [Open notes_window]) ''zz'' \<noteq> run initial_state [Open notes_window] \<and>
   restoreWindow (run initial_state [Open notes_window]) ''zz'' \<noteq> run initial_state [Open notes_window] \<and>
   topZIndex (run initial_state [Open notes_window]) = 101 \<and>
   focused_count (windows (run initial_state [Open notes_window])) = 1 \<and>
   topZIndex (focusWindow (run initial_state [Open notes_window]) ''zz'') = 102 \<and>
   focused_count (windows (focusWindow (run initial_state [Open notes_window]) ''zz'')) = 0 \<and>
   topZIndex (restoreWindow (run initial_state [Open notes_window]) ''zz'') = 102 \<and>
   focused_count (windows (restoreWindow (run initial_state [Open notes_window]) ''zz'')) = 0"
  by (simp add: initial_state_def notes_window_def op_defs ids_def focused_count_def)

section \<open>Allocation of the stacking order\<close>

text \<open>
  C4 (monotonic allocation of the z-order). The counter never decreases, in a single call
  and over any sequence of calls; in every state reached from the initial one it is at
  least the \<open>zIndex\<close> of every window. Every call of \<open>openWindow\<close> (whichever branch it
  takes), \<open>restoreWindow\<close> and \<open>focusWindow\<close> adds exactly 1 to the counter, and the window
  with the id of the call has the new value of the counter as its \<open>zIndex\<close> afterwards
  (after \<open>openWindow\<close> there is such a window). \<open>closeWindow\<close>, \<open>minimizeWindow\<close>,
  \<open>maximizeWindow\<close>, \<open>updateWindowPosition\<close> and \<open>updateWindowSize\<close> leave the counter as it
  is.
\<close>

theorem z_order_allocation:
  "topZIndex s \<le> topZIndex (step s a) \<and>
   topZIndex s \<le> topZIndex (run s as) \<and>
   z_bounded (run initial_state as) \<and>
   topZIndex (openWindow s window) = topZIndex s + 1 \<and>
   wid window \<in> set (ids (windows (openWindow s window))) \<and>
   list_all (\<lambda>v. wid v = wid window \<longrightarrow> zIndex v = topZIndex (openWindow s window))
     (windows (openWindow s window)) \<and>
   topZIndex (restoreWindow s i) = topZIndex s + 1 \<and>
   list_all (\<lambda>v. wid v = i \<longrightarrow> zIndex v = topZIndex (restoreWindow s i))
     (windows (restoreWindow s i)) \<and>
   topZIndex (focusWindow s i) = topZIndex s + 1 \<and>
   list_all (\<lambda>v. wid v = i \<longrightarrow> zIndex v = topZIndex (focusWindow s i))
     (windows (focusWindow s i)) \<and>
   topZIndex (closeWindow s i) = topZIndex s \<and>
   topZIndex (minimizeWindow s i) = topZIndex s \<and>
   topZIndex (maximizeWindow s i) = topZIndex s \<and>
   topZIndex (updateWindowPosition s i x y) = topZIndex s \<and>
   topZIndex (updateWindowSize s i w h) = topZIndex s"
proof -
  have init: "z_bounded initial_state"
    by (simp add: z_bounded_def initial_state_def)
  have step_mono: "topZIndex s \<le> topZIndex (step s a)"
    by (rule topZIndex_step_mono)
  have run_mono: "topZIndex s \<le> topZIndex (run s as)"
    by (rule topZIndex_run_mono)
  have bounded: "z_bounded (run initial_state as)"
    using init by (rule z_bounded_run)
  have o: "topZIndex (openWindow s window) = topZIndex s + 1"
    by (simp add: openWindow_def Let_def)
  have r: "topZIndex (restoreWindow s i) = topZIndex s + 1"
    by (simp add: restoreWindow_def Let_def)
  have f: "topZIndex (focusWindow s i) = topZIndex s + 1"
    by (simp add: focusWindow_def Let_def)
  have present: "wid window \<in> set (ids (windows (openWindow s window)))"
    by (simp add: ids_openWindow)
  have zo: "list_all (\<lambda>v. wid v = wid window \<longrightarrow> zIndex v = topZIndex (openWindow s window))
     (windows (openWindow s window))"
    unfolding o by (rule zIndex_openWindow)
  have zr: "list_all (\<lambda>v. wid v = i \<longrightarrow> zIndex v = topZIndex (restoreWindow s i))
     (windows (restoreWindow s i))"
    unfolding r by (rule zIndex_restoreWindow)
  have zf: "list_all (\<lambda>v. wid v = i \<longrightarrow> zIndex v = topZIndex (focusWindow s i))
     (windows (focusWindow s i))"
    unfolding f by (rule zIndex_focusWindow)
  have c: "topZIndex (closeWindow s i) = topZIndex s"
    by (simp add: closeWindow_def)
  have mi: "topZIndex (minimizeWindow s i) = topZIndex s"
    by (simp add: minimizeWindow_def)
  have ma: "topZIndex (maximizeWindow s i) = topZIndex s"
    by (simp add: maximizeWindow_def)
  have up: "topZIndex (updateWindowPosition s i x y) = topZIndex s"
    by (simp add: updateWindowPosition_def)
  have us: "topZIndex (updateWindowSize s i w h) = topZIndex s"
    by (simp add: updateWindowSize_def)
  from step_mono run_mono bounded o present zo r zr f zf c mi ma up us
  show ?thesis by (intro conjI)
qed

theorem z_order_allocation_witness:
  "topZIndex (run initial_state [Open notes_window]) = 101 \<and>
   topZIndex (step (run initial_state [Open notes_window]) (Minimize ''a'')) = 101 \<and>
   topZIndex (run (run initial_state [Open notes_window]) [Open editor_window, Close ''a'', Focus ''b'']) = 103 \<and>
   z_bounded (run initial_state [Open editor_window, Close ''a'', Focus ''b'']) \<and>
   topZIndex (openWindow (run initial_state [Open notes_window]) editor_window) = 102 \<and>
   map zIndex (windows (openWindow (run initial_state [Open notes_window]) editor_window)) = [101, 102] \<and>
   topZIndex (restoreWindow (run initial_state [Open notes_window]) ''a'') = 102 \<and>
   map zIndex (windows (restoreWindow (run initial_state [Open notes_window]) ''a'')) = [102] \<and>
   topZIndex (focusWindow (run initial_state [Open notes_window]) ''a'') = 102 \<and>
   map zIndex (windows (focusWindow (run initial_state [Open notes_window]) ''a'')) = [102] \<and>
   topZIndex (closeWindow (run initial_state [Open notes_window]) ''a'') = 101"
  using z_order_allocation [of "run initial_state [Open notes_window]" "Minimize ''a''"
      "[Open editor_window, Close ''a'', Focus ''b'']" editor_window "''a''" 1 2 3 4]
  by (simp add: initial_state_def notes_window_def editor_window_def op_defs ids_def z_bounded_def)

section \<open>Opening a window\<close>

text \<open>
  C5 (open with an unused id). When no window of the collection has the id of the
  argument, \<open>openWindow\<close> appends exactly one window: the fields of the argument, with
  \<open>isMinimized\<close> and \<open>isMaximized\<close> as given, \<open>zIndex\<close> the incremented counter and
  \<open>isFocused = true\<close>; every window that was there before is kept, in place, with
  \<open>isFocused = false\<close>. Scenario A: on the initial state (counter 100) the call with
  \<open>{id: "a", title: "Notes", x: 0, y: 0, width: 400, height: 300}\<close> yields the single
  window \<open>a\<close>, focused, with \<open>zIndex = 101\<close>.
\<close>

theorem open_fresh_id:
  assumes "wid window \<notin> set (ids (windows s))"
  shows "windows (openWindow s window) =
           map (\<lambda>w. w\<lparr>isFocused := False\<rparr>) (windows s) @
           [\<lparr>wid = wid window, title = title window, xpos = xpos window, ypos = ypos window,
             width = width window, height = height window,
             isMinimized = isMinimized window, isMaximized = isMaximized window,
             zIndex = topZIndex s + 1, isFocused = True\<rparr>] \<and>
         topZIndex (openWindow s window) = topZIndex s + 1 \<and>
         length (windows (openWindow s window)) = length (windows s) + 1 \<and>
         openWindow initial_state notes_window =
           \<lparr>windows = [\<lparr>wid = ''a'', title = ''Notes'', xpos = 0, ypos = 0,
                         width = 400, height = 300, isMinimized = False, isMaximized = False,
                         zIndex = 101, isFocused = True\<rparr>],
            topZIndex = 101\<rparr>"
proof -
  have "openWindow initial_state notes_window =
           \<lparr>windows = [\<lparr>wid = ''a'', title = ''Notes'', xpos = 0, ypos = 0,
                         width = 400, height = 300, isMinimized = False, isMaximized = False,
                         zIndex = 101, isFocused = True\<rparr>],
            topZIndex = 101\<rparr>"
    by (simp add: openWindow_def Let_def initial_state_def notes_window_def)
  with openWindow_absent [OF assms] show ?thesis
    by (simp add: topZIndex_openWindow)
qed

theorem open_fresh_id_witness:
  "wid editor_window \<notin> set (ids (windows (openWindow initial_state notes_window))) \<and>
   windows (openWindow (openWindow initial_state notes_window) editor_window) =
     [\<lparr>wid = ''a'', title = ''Notes'', xpos = 0, ypos = 0,
       width = 400, height = 300, isMinimized = False, isMaximized = False,
       zIndex = 101, isFocused = False\<rparr>,
      \<lparr>wid = ''b'', title = ''Editor'', xpos = 40, ypos = 60,
       width = 640, height = 480, isMinimized = False, isMaximized = False,
       zIndex = 102, isFocused = True\<rparr>] \<and>
   topZIndex (openWindow (openWindow initial_state notes_window) editor_window) = 102"
  using open_fresh_id [of editor_window "openWindow initial_state notes_window"]
  by (simp add: initial_state_def notes_window_def editor_window_def openWindow_def Let_def ids_def)

text \<open>
  C6 (open with an id already present). When the collection has a window with the id of
  the argument, \<open>openWindow\<close> keeps the size of the collection; a window with that id keeps
  its stored \<open>title\<close>, \<open>x\<close>, \<open>y\<close>, \<open>width\<close>, \<open>height\<close> and \<open>isMaximized\<close>, becomes focused, takes
  the new counter value as \<open>zIndex\<close> and is never turned minimized; where ids are unique
  it ends not minimized. Every other window only loses the focus. The remaining fields of
  the argument are ignored: two arguments with the same id give the same state.
\<close>

theorem open_existing_id:
  assumes "wid window \<in> set (ids (windows s))"
  shows "length (windows (openWindow s window)) = length (windows s) \<and>
         topZIndex (openWindow s window) = topZIndex s + 1 \<and>
         list_all2
           (\<lambda>w w'. if wid w = wid window
                    then wid w' = wid w \<and> title w' = title w \<and> xpos w' = xpos w \<and>
                         ypos w' = ypos w \<and> width w' = width w \<and> height w' = height w \<and>
                         isMaximized w' = isMaximized w \<and> (isMinimized w' \<longrightarrow> isMinimized w) \<and>
                         isFocused w' \<and> zIndex w' = topZIndex s + 1
                    else w' = w\<lparr>isFocused := False\<rparr>)
           (windows s) (windows (openWindow s window)) \<and>
         (distinct (ids (windows s)) \<longrightarrow>
            list_all (\<lambda>w'. wid w' = wid window \<longrightarrow> \<not> isMinimized w')
              (windows (openWindow s window))) \<and>
         (wid window2 = wid window \<longrightarrow> openWindow s window2 = openWindow s window)"
proof -
  from find_present [OF assms] obtain e
    where e: "find (\<lambda>w. wid w = wid window) (windows s) = Some e" ..
  note ws = openWindow_present [OF e]
  have len: "length (windows (openWindow s window)) = length (windows s)"
    by (simp add: ws)
  have frame: "list_all2
           (\<lambda>w w'. if wid w = wid window
                    then wid w' = wid w \<and> title w' = title w \<and> xpos w' = xpos w \<and>
                         ypos w' = ypos w \<and> width w' = width w \<and> height w' = height w \<and>
                         isMaximized w' = isMaximized w \<and> (isMinimized w' \<longrightarrow> isMinimized w) \<and>
                         isFocused w' \<and> zIndex w' = topZIndex s + 1
                    else w' = w\<lparr>isFocused := False\<rparr>)
           (windows s) (windows (openWindow s window))"
    unfolding ws list_all2_map_self by (simp add: list_all_iff)
  have clear: "list_all (\<lambda>w'. wid w' = wid window \<longrightarrow> \<not> isMinimized w')
              (windows (openWindow s window))" if d: "distinct (ids (windows s))"
  proof -
    have "\<not> isMinimized w \<or> isMinimized e" if "w \<in> set (windows s)" "wid w = wid window" for w
      using find_Some_distinct [OF d e that] by simp
    then show ?thesis unfolding ws by (auto simp: list_all_iff)
  qed
  have same: "openWindow s window2 = openWindow s window" if "wid window2 = wid window"
    using that e by (simp add: openWindow_def Let_def)
  from len topZIndex_openWindow [of s window] frame clear same show ?thesis
    by blast
qed

theorem open_existing_id_witness:
  "wid (notes_window\<lparr>title := ''Renamed'', width := 1\<rparr>)
     \<in> set (ids (windows (run initial_state [Open notes_window, Open editor_window, Minimize ''a'']))) \<and>
   run initial_state [Open notes_window, Open editor_window, Minimize ''a'',
                      Open (notes_window\<lparr>title := ''Renamed'', width := 1\<rparr>)] =
     \<lparr>windows =
        [\<lparr>wid = ''a'', title = ''Notes'', xpos = 0, ypos = 0,
          width = 400, height = 300, isMinimized = False, isMaximized = False,
          zIndex = 103, isFocused = True\<rparr>,
         \<lparr>wid = ''b'', title = ''Editor'', xpos = 40, ypos = 60,
          width = 640, height = 480, isMinimized = False, isMaximized = False,
          zIndex = 102, isFocused = False\<rparr>],
      topZIndex = 103\<rparr>"
  using open_existing_id [of "notes_window\<lparr>title := ''Renamed'', width := 1\<rparr>"
      "run initial_state [Open notes_window, Open editor_window, Minimize ''a'']" notes_window]
  by (simp add: initial_state_def notes_window_def editor_window_def op_defs ids_def)

section \<open>Closing a window\<close>

text \<open>
  C7 (close removes, and is idempotent). \<open>closeWindow\<close> keeps exactly the windows with
  another id, as they are and in their order, and does not touch the counter; no window
  with the id remains, and where ids are unique and the id is present the collection
  shrinks by one. On an absent id the state is unchanged, and a second \<open>closeWindow\<close> with
  the same id changes nothing more.
\<close>

theorem close_removes_and_is_idempotent:
  "windows (closeWindow s i) = filter (\<lambda>w. wid w \<noteq> i) (windows s) \<and>
   topZIndex (closeWindow s i) = topZIndex s \<and>
   i \<notin> set (ids (windows (closeWindow s i))) \<and>
   (distinct (ids (windows s)) \<and> i \<in> set (ids (windows s)) \<longrightarrow>
      length (windows (closeWindow s i)) + 1 = length (windows s)) \<and>
   (i \<notin> set (ids (windows s)) \<longrightarrow> closeWindow s i = s) \<and>
   closeWindow (closeWindow s i) i = closeWindow s i"
proof -
  have ws: "windows (closeWindow s i) = filter (\<lambda>w. wid w \<noteq> i) (windows s)"
    and z: "topZIndex (closeWindow s i) = topZIndex s"
    by (simp_all add: closeWindow_def)
  have gone: "i \<notin> set (ids (windows (closeWindow s i)))"
    by (simp add: ids_closeWindow)
  have one: "length (windows (closeWindow s i)) + 1 = length (windows s)"
    if "distinct (ids (windows s)) \<and> i \<in> set (ids (windows s))"
    unfolding ws using that by (intro length_filter_distinct) simp_all
  have absent: "closeWindow s i = s" if "i \<notin> set (ids (windows s))"
    using filter_absent_same [OF that] by (simp add: closeWindow_def)
  have twice: "closeWindow (closeWindow s i) i = closeWindow s i"
    by (simp add: closeWindow_def)
  from ws z gone one absent twice show ?thesis by blast
qed

theorem close_removes_and_is_idempotent_witness:
  "distinct (ids (windows (run initial_state [Open notes_window, Open editor_window]))) \<and>
   ''a'' \<in> set (ids (windows (run initial_state [Open notes_window, Open editor_window]))) \<and>
   run initial_state [Open notes_window, Open editor_window, Close ''a''] =
     \<lparr>windows =
        [\<lparr>wid = ''b'', title = ''Editor'', xpos = 40, ypos = 60,
          width = 640, height = 480, isMinimized = False, isMaximized = False,
          zIndex = 102, isFocused = True\<rparr>],
      topZIndex = 102\<rparr> \<and>
   ''a'' \<notin> set (ids (windows (run initial_state [Open notes_window, Open editor_window, Close ''a'']))) \<and>
   run initial_state [Open notes_window, Open editor_window, Close ''a'', Close ''a''] =
     run initial_state [Open notes_window, Open editor_window, Close ''a'']"
  using close_removes_and_is_idempotent
      [of "run initial_state [Open notes_window, Open editor_window]" "''a''"]
    close_removes_and_is_idempotent
      [of "run initial_state [Open notes_window, Open editor_window, Close ''a'']" "''a''"]
  by (simp add: initial_state_def notes_window_def editor_window_def op_defs ids_def)

section \<open>Maximize and minimize\<close>

text \<open>
  C8 (maximize is an involutive toggle). \<open>maximizeWindow\<close> replaces \<open>isMaximized\<close> by its
  negation on a window with the id of the call and changes nothing else: every other field
  of that window (\<open>zIndex\<close>, \<open>isFocused\<close>, \<open>isMinimized\<close>, position, size), every other window
  and the counter stay as they are. Applied twice it gives back the state it started
  from.
\<close>

theorem maximize_toggle_involution:
  "topZIndex (maximizeWindow s i) = topZIndex s \<and>
   list_all2 (\<lambda>w w'. if wid w = i then w' = w\<lparr>isMaximized := \<not> isMaximized w\<rparr> else w' = w)
     (windows s) (windows (maximizeWindow s i)) \<and>
   list_all2 (\<lambda>w w'. wid w' = wid w \<and> title w' = title w \<and> xpos w' = xpos w \<and>
                      ypos w' = ypos w \<and> width w' = width w \<and> height w' = height w \<and>
                      isMinimized w' = isMinimized w \<and> zIndex w' = zIndex w \<and>
                      isFocused w' = isFocused w)
     (windows s) (windows (maximizeWindow s i)) \<and>
   maximizeWindow (maximizeWindow s i) i = s"
proof -
  have z: "topZIndex (maximizeWindow s i) = topZIndex s"
    by (simp add: maximizeWindow_def)
  have t: "list_all2 (\<lambda>w w'. if wid w = i then w' = w\<lparr>isMaximized := \<not> isMaximized w\<rparr> else w' = w)
     (windows s) (windows (maximizeWindow s i))"
    by (simp add: maximizeWindow_def list_all2_map_self list_all_iff)
  have f: "list_all2 (\<lambda>w w'. wid w' = wid w \<and> title w' = title w \<and> xpos w' = xpos w \<and>
                      ypos w' = ypos w \<and> width w' = width w \<and> height w' = height w \<and>
                      isMinimized w' = isMinimized w \<and> zIndex w' = zIndex w \<and>
                      isFocused w' = isFocused w)
     (windows s) (windows (maximizeWindow s i))"
    by (simp add: maximizeWindow_def list_all2_map_self list_all_iff)
  from z t f maximizeWindow_twice [of s i] show ?thesis by (intro conjI)
qed

theorem maximize_toggle_involution_witness:
  "map isMaximized (windows (run initial_state [Open notes_window])) = [False] \<and>
   map isMaximized (windows (run initial_state [Open notes_window, Maximize ''a''])) = [True] \<and>
   map zIndex (windows (run initial_state [Open notes_window, Maximize ''a''])) = [101] \<and>
   run initial_state [Open notes_window, Maximize ''a'', Maximize ''a''] =
     run initial_state [Open notes_window]"
  using maximize_toggle_involution [of "run initial_state [Open notes_window]" "''a''"]
  by (simp add: initial_state_def notes_window_def openWindow_def Let_def maximizeWindow_def)

text \<open>
  C9 (minimize touches only its target), as the code has it. \<open>minimizeWindow\<close> sets
  \<open>isMinimized = true\<close> and \<open>isFocused = false\<close> on a window with the id of the call, leaves
  every other window as it is, so that no window gains the focus and no \<open>zIndex\<close> changes,
  and never changes the counter. It returns the state unchanged when the id is absent, and
  when the window is already minimized and not focused.
\<close>

theorem minimize_only_target:
  "topZIndex (minimizeWindow s i) = topZIndex s \<and>
   list_all2 (\<lambda>w w'. if wid w = i then w' = w\<lparr>isMinimized := True, isFocused := False\<rparr>
                      else w' = w)
     (windows s) (windows (minimizeWindow s i)) \<and>
   (i \<notin> set (ids (windows s)) \<longrightarrow> minimizeWindow s i = s) \<and>
   (list_all (\<lambda>w. wid w = i \<longrightarrow> isMinimized w \<and> \<not> isFocused w) (windows s) \<longrightarrow>
      minimizeWindow s i = s)"
proof -
  have z: "topZIndex (minimizeWindow s i) = topZIndex s"
    by (simp add: minimizeWindow_def)
  have t: "list_all2 (\<lambda>w w'. if wid w = i then w' = w\<lparr>isMinimized := True, isFocused := False\<rparr>
                      else w' = w)
     (windows s) (windows (minimizeWindow s i))"
    by (simp add: minimizeWindow_def list_all2_map_self list_all_iff)
  have a: "minimizeWindow s i = s" if "i \<notin> set (ids (windows s))"
    using map_absent_same [OF that] by (simp add: minimizeWindow_def)
  from z t a minimizeWindow_settled [of i s] show ?thesis by blast
qed

theorem minimize_only_target_witness:
  "run initial_state [Open notes_window, Open editor_window, Minimize ''b''] =
     \<lparr>windows =
        [\<lparr>wid = ''a'', title = ''Notes'', xpos = 0, ypos = 0,
          width = 400, height = 300, isMinimized = False, isMaximized = False,
          zIndex = 101, isFocused = False\<rparr>,
         \<lparr>wid = ''b'', title = ''Editor'', xpos = 40, ypos = 60,
          width = 640, height = 480, isMinimized = True, isMaximized = False,
          zIndex = 102, isFocused = False\<rparr>],
      topZIndex = 102\<rparr> \<and>
   ''zz'' \<notin> set (ids (windows (run initial_state [Open notes_window, Open editor_window, Minimize ''b'']))) \<and>
   run initial_state [Open notes_window, Open editor_window, Minimize ''b'', Minimize ''zz''] =
     run initial_state [Open notes_window, Open editor_window, Minimize ''b''] \<and>
   list_all (\<lambda>w. wid w = ''b'' \<longrightarrow> isMinimized w \<and> \<not> isFocused w)
     (windows (run initial_state [Open notes_window, Open editor_window, Minimize ''b''])) \<and>
   run initial_state [Open notes_window, Open editor_window, Minimize ''b'', Minimize ''b''] =
     run initial_state [Open notes_window, Open editor_window, Minimize ''b'']"
  using minimize_only_target [of "run initial_state [Open notes_window, Open editor_window]" "''b''"]
    minimize_only_target
      [of "run initial_state [Open notes_window, Open editor_window, Minimize ''b'']" "''zz''"]
    minimize_only_target
      [of "run initial_state [Open notes_window, Open editor_window, Minimize ''b'']" "''b''"]
  by (simp add: initial_state_def notes_window_def editor_window_def openWindow_def Let_def
      minimizeWindow_def ids_def)

text \<open>
  Being minimized alone does not make the call a no-op: after \<open>open a; minimize a; focus a\<close>
  the window \<open>a\<close> is minimized and focused, and \<open>minimize a\<close> takes the focus from it.
\<close>

theorem minimize_minimized_counterexample:
  "''a'' \<in> set (ids (windows (run initial_state [Open notes_window, Minimize ''a'', Focus ''a'']))) \<and>
   list_all isMinimized (windows (run initial_state [Open notes_window, Minimize ''a'', Focus ''a''])) \<and>
   minimizeWindow (run initial_state [Open notes_window, Minimize ''a'', Focus ''a'']) ''a'' \<noteq>
     run initial_state [Open notes_window, Minimize ''a'', Focus ''a''] \<and>
   focused_count (windows (run initial_state [Open notes_window, Minimize ''a'', Focus ''a''])) = 1 \<and>
   focused_count (windows (minimizeWindow
     (run initial_state [Open notes_window, Minimize ''a'', Focus ''a'']) ''a'')) = 0"
  by (simp add: initial_state_def notes_window_def op_defs ids_def focused_count_def)

section \<open>Order of the collection\<close>

text \<open>
  C10 (insertion order is stable). A call changes the sequence of ids of the collection
  in two ways only: \<open>openWindow\<close> with an unused id appends that id at the end, and
  \<open>closeWindow\<close> deletes the id of the call; every other call, \<open>openWindow\<close> with a known id
  included, leaves the sequence as it is. Hence the ids that are in the collection before
  and after a call stand in the same order before and after it.
\<close>

theorem insertion_order_stable:
  "ids (windows (step s a)) =
     (case a of
        Open window \<Rightarrow>
          if wid window \<in> set (ids (windows s)) then ids (windows s)
          else ids (windows s) @ [wid window]
      | Close i \<Rightarrow> filter (\<lambda>j. j \<noteq> i) (ids (windows s))
      | _ \<Rightarrow> ids (windows s)) \<and>
   filter (\<lambda>j. j \<in> set (ids (windows (step s a)))) (ids (windows s)) =
   filter (\<lambda>j. j \<in> set (ids (windows s))) (ids (windows (step s a)))"
proof (cases a)
  case (Open window)
  then show ?thesis by (simp add: ids_openWindow)
next
  case (Close i)
  then show ?thesis
    by (simp only: step.simps ids_closeWindow operation.case filter_survivors filter_members simp_thms)
qed (simp_all add: ids_ops)

theorem insertion_order_stable_witness:
  "ids (windows (run initial_state [Open notes_window, Open editor_window, Open tray_window])) =
     [''a'', ''b'', ''c''] \<and>
   ids (windows (run initial_state [Open notes_window, Open editor_window, Open tray_window,
                                    Focus ''a''])) = [''a'', ''b'', ''c''] \<and>
   ids (windows (run initial_state [Open notes_window, Open editor_window, Open tray_window,
                                    Focus ''a'', Close ''b''])) = [''a'', ''c''] \<and>
   ids (windows (run initial_state [Open notes_window, Open editor_window, Open tray_window,
                                    Focus ''a'', Close ''b'', Open editor_window])) =
     [''a'', ''c'', ''b'']"
  using insertion_order_stable
      [of "run initial_state [Open notes_window, Open editor_window, Open tray_window]" "Focus ''a''"]
  by (simp add: initial_state_def notes_window_def editor_window_def tray_window_def op_defs ids_def)

end
